theory Spec2Isabelle
  imports Complex_Main
begin

section \<open>Return codes of the generic nonlinear solver\<close>

text \<open>
  Part V of the nonlinear-solver header defines the return codes as preprocessor
  constants. Each name is a constructor of \<open>nls_code\<close>; \<open>nls_value\<close> gives the
  integer the preprocessor substitutes for it. \<open>SUN_NLS_SUCCESS\<close> is defined twice
  with the same value 0. \<open>SUN_NLS_MEM_FAIL\<close> is commented out with the value -3 in the
  first block and defined with the value -1 in the second.
\<close>

datatype nls_code =
    SUN_NLS_SUCCESS
  | SUN_NLS_MEM_NULL
  | SUN_NLS_ILL_INPUT
  | SUN_NLS_MEM_FAIL
  | SUN_NLS_SYS_RECVR
  | SUN_NLS_SYS_FAIL
  | SUN_NLS_LSETUP_RECVR
  | SUN_NLS_LSETUP_FAIL
  | SUN_NLS_LSOLVE_RECVR
  | SUN_NLS_LSOLVE_FAIL
  | SUN_NLS_NCONV_RECVR
  | SUN_NLS_VECTOROP_ERR
  | NLS_CONTINUE

fun nls_value :: "nls_code \<Rightarrow> int" where
  "nls_value SUN_NLS_SUCCESS = 0"
| "nls_value SUN_NLS_MEM_NULL = -1"
| "nls_value SUN_NLS_ILL_INPUT = -2"
| "nls_value SUN_NLS_MEM_FAIL = -1"
| "nls_value SUN_NLS_SYS_RECVR = 1"
| "nls_value SUN_NLS_SYS_FAIL = -8"
| "nls_value SUN_NLS_LSETUP_RECVR = 2"
| "nls_value SUN_NLS_LSETUP_FAIL = -6"
| "nls_value SUN_NLS_LSOLVE_RECVR = 3"
| "nls_value SUN_NLS_LSOLVE_FAIL = -7"
| "nls_value SUN_NLS_NCONV_RECVR = 4"
| "nls_value SUN_NLS_VECTOROP_ERR = -28"
| "nls_value NLS_CONTINUE = 6"

section \<open>The band-block-diagonal preconditioner for KINSOL\<close>

text \<open>
  The model of \<open>kinbbdpre.c\<close>. The type \<open>realtype\<close> is modelled by \<open>real\<close>
  (rounding and overflow are outside the model) and \<open>integertype\<close> by \<open>int\<close>. The
  macros \<open>MIN\<close>, \<open>MAX\<close> and \<open>ABS\<close> are \<open>min\<close>, \<open>max\<close> and \<open>abs\<close>. A real
  number has no quotient by zero, so a division is a partial operation: the model
  stops with \<open>DivByZero\<close> where the code divides by zero (in IEEE arithmetic the code
  goes on with an infinity or a NaN, which no real number stands for). A dereference
  of a NULL pointer stops it with \<open>NullPointer\<close>. A vector is the list of its
  components; \<open>gloc\<close> gives the new contents of its output vector and \<open>gcomm\<close> the
  new user data.
\<close>

datatype kerror = NullPointer | DivByZero

definition rdiv :: "real \<Rightarrow> real \<Rightarrow> kerror + real" where
  "rdiv a b = (if b = 0 then Inl DivByZero else Inr (a / b))"

subsection \<open>Data\<close>

text \<open>
  Modelled from the spec: the band matrix type and its element macros
  (\<open>BAND_COL\<close>, \<open>BAND_COL_ELEM\<close>) are declared in \<open>band.h\<close>, which is not among the
  sources. The store is the dimensions given to \<open>BandAllocMat\<close> together with the
  entries, addressed by (row, column) as the spec's \<open>elementAt(row, col)\<close>.
\<close>

record BandMat =
  b_size :: int
  b_mu :: int
  b_ml :: int
  b_smu :: int
  b_elem :: "int \<times> int \<Rightarrow> real"


definition set_BAND_COL_ELEM :: "BandMat \<Rightarrow> int \<Rightarrow> int \<Rightarrow> real \<Rightarrow> BandMat" where
  "set_BAND_COL_ELEM A i j v = A\<lparr>b_elem := (b_elem A)((i, j) := v)\<rparr>"

definition BandZero :: "BandMat \<Rightarrow> BandMat" where
  "BandZero A = A\<lparr>b_elem := (\<lambda>_. 0)\<rparr>"

text \<open>
  Modelled from the spec: \<open>N_VScale\<close> belongs to the vector module, which is not among
  the sources. \<open>N_VScale(c, x, z)\<close> sets every component of \<open>z\<close> to \<open>c\<close> times that of
  \<open>x\<close>; the call site describes its effect as "Load utemp with uu".
\<close>

definition N_VScale :: "real \<Rightarrow> real list \<Rightarrow> real list \<Rightarrow> real list" where
  "N_VScale c x z = map (\<lambda>a. c * a) x"

record N_Vector_Ops =
  nvmake :: "unit option"
  nvdispose :: "unit option"
  nvgetdata :: "unit option"
  nvsetdata :: "unit option"

record M_Env =
  tag :: string
  ops :: N_Vector_Ops

record KINMem =
  kin_machenv :: M_Env
  kin_uround :: real

text \<open>
  The routines \<open>KBBDAlloc\<close> calls and the sources do not hold: whether \<open>malloc\<close>
  gives memory for the data block, the allocators of the band module and of the vector
  module (\<open>None\<close> is their NULL result), and \<open>RSqrt\<close>.
\<close>

record alloc_env =
  malloc_pdata :: bool
  BandAllocMat :: "int \<Rightarrow> int \<Rightarrow> int \<Rightarrow> int \<Rightarrow> BandMat option"
  BandAllocPiv :: "int \<Rightarrow> int list option"
  N_VNew :: "int \<Rightarrow> M_Env \<Rightarrow> real list option"
  RSqrt :: "real \<Rightarrow> real"

text \<open>
  The data block \<open>KBBDData\<close>. The user data \<open>f_data\<close> has any type \<open>'fd\<close>; \<open>gcomm\<close>
  stages data in it and \<open>gloc\<close> reads it. The three allocated components are \<open>None\<close>
  when their pointer is NULL.
\<close>

record 'fd KBBDData =
  f_data :: 'fd
  ml :: int
  mu :: int
  gloc :: "int \<Rightarrow> real list \<Rightarrow> 'fd \<Rightarrow> real list"
  gcomm :: "int \<Rightarrow> real list \<Rightarrow> 'fd \<Rightarrow> 'fd"
  PP :: "BandMat option"
  pivots :: "int list option"
  vtemp3 :: "real list option"
  rel_uu :: real
  n_local :: int
  rpwsize :: int
  ipwsize :: int
  nge :: int

subsection \<open>KBBDAlloc\<close>

text \<open>
  The result is \<open>Inr None\<close> for the return value NULL and \<open>Inr (Some pdata)\<close> for a
  data block. With a NULL \<open>kinmem\<close> the code prints to \<open>errfp\<close>, which the file defines
  as \<open>kin_mem->kin_msgfp\<close>: it dereferences the NULL pointer before it can return. The
  local variables that hold the results of the allocators have the names of the
  fields they are stored in, with \<open>_new\<close>. After the pivots are allocated the code
  tests \<open>pdata->PP == NULL\<close> a second time; so does the model.
\<close>

definition KBBDAlloc ::
  "alloc_env \<Rightarrow> int \<Rightarrow> int \<Rightarrow> int \<Rightarrow> real \<Rightarrow> (int \<Rightarrow> real list \<Rightarrow> 'fd \<Rightarrow> real list) \<Rightarrow>
   (int \<Rightarrow> real list \<Rightarrow> 'fd \<Rightarrow> 'fd) \<Rightarrow> 'fd \<Rightarrow> KINMem option \<Rightarrow> kerror + 'fd KBBDData option" where
  "KBBDAlloc env Nlocal mu_in ml_in dq_rel_uu gloc_in gcomm_in f_data_in kinmem =
     (case kinmem of
        None \<Rightarrow> Inl NullPointer
      | Some kin_mem \<Rightarrow>
          let machenv = kin_machenv kin_mem in
          if tag machenv \<noteq> ''parallel'' \<or> nvmake (ops machenv) = None
             \<or> nvdispose (ops machenv) = None \<or> nvgetdata (ops machenv) = None
             \<or> nvsetdata (ops machenv) = None
          then Inr None
          else if \<not> malloc_pdata env then Inr None
          else
            let PP_new = BandAllocMat env Nlocal mu_in ml_in (mu_in + ml_in) in
            if PP_new = None then Inr None
            else
              let pivots_new = BandAllocPiv env Nlocal in
              if PP_new = None then Inr None
              else
                let vtemp3_new = N_VNew env Nlocal machenv in
                if vtemp3_new = None then Inr None
                else
                  let rel_uu_new =
                        (if dq_rel_uu > 0 then dq_rel_uu else RSqrt env (kin_uround kin_mem))
                  in Inr (Some \<lparr>f_data = f_data_in, ml = ml_in, mu = mu_in,
                                gloc = gloc_in, gcomm = gcomm_in,
                                PP = PP_new, pivots = pivots_new, vtemp3 = vtemp3_new,
                                rel_uu = rel_uu_new, n_local = Nlocal,
                                rpwsize = Nlocal * (2 * mu_in + ml_in + 1),
                                ipwsize = Nlocal, nge = 0\<rparr>))"

subsection \<open>KBBDDQJac\<close>

text \<open>
  The memory the builder works on: the band matrix \<open>J\<close>, the vectors \<open>gu\<close>, \<open>gtemp\<close>
  and \<open>utemp\<close>, and the user data. \<open>dq_calls\<close> is not a variable of the code: it
  lists, in order, the argument vector of every call of \<open>gloc\<close>.
\<close>

record 'fd dq_state =
  dq_J :: BandMat
  dq_gu :: "real list"
  dq_gtemp :: "real list"
  dq_utemp :: "real list"
  dq_f_data :: 'fd
  dq_calls :: "real list list"

text \<open>\<open>inc = rel_uu * MAX(ABS(udata[j]), ONE/uscdata[j])\<close>\<close>

definition dq_inc :: "real \<Rightarrow> real list \<Rightarrow> real list \<Rightarrow> int \<Rightarrow> kerror + real" where
  "dq_inc r udata uscdata j =
     (case rdiv 1 (uscdata ! nat j) of
        Inl e \<Rightarrow> Inl e
      | Inr q \<Rightarrow> Inr (r * max \<bar>udata ! nat j\<bar> q))"

text \<open>
  Both inner loops have the header \<open>for (j = group-1; j < Nlocal; j += width)\<close>.
  \<open>col_loop Nlocal width body j s\<close> is that loop from the column \<open>j\<close> on, \<open>body\<close>
  being what one pass does to the memory \<open>s\<close> that the loop changes. With a width that
  is not positive the loop does not end; the result is then \<open>None\<close>.
\<close>

partial_function (option) col_loop ::
  "int \<Rightarrow> int \<Rightarrow> (int \<Rightarrow> 's \<Rightarrow> kerror + 's) \<Rightarrow> int \<Rightarrow> 's \<Rightarrow> (kerror + 's) option" where
  "col_loop Nlocal width body j s =
     (if j < Nlocal then
        (case body j s of
           Inl e \<Rightarrow> Some (Inl e)
         | Inr s' \<Rightarrow> col_loop Nlocal width body (j + width) s')
      else Some (Inr s))"

text \<open>First inner loop ("Increment all u_j in group"): \<open>utempdata[j] += inc\<close>.\<close>

definition incr_body :: "real \<Rightarrow> real list \<Rightarrow> real list \<Rightarrow> int \<Rightarrow> real list \<Rightarrow> kerror + real list" where
  "incr_body r udata uscdata j utempdata =
     (case dq_inc r udata uscdata j of
        Inl e \<Rightarrow> Inl e
      | Inr inc \<Rightarrow> Inr (utempdata[nat j := utempdata ! nat j + inc]))"

text \<open>
  The innermost loop
  \<open>for (i = i1; i <= i2; i++) BAND_COL_ELEM(col_j,i,j) = inc_inv * (gtempdata[i] - gudata[i])\<close>.
\<close>

function row_loop :: "real \<Rightarrow> real list \<Rightarrow> real list \<Rightarrow> int \<Rightarrow> int \<Rightarrow> int \<Rightarrow> BandMat \<Rightarrow> BandMat" where
  "row_loop inc_inv gtempdata gudata j i2 i A =
     (if i \<le> i2 then
        row_loop inc_inv gtempdata gudata j i2 (i + 1)
          (set_BAND_COL_ELEM A i j (inc_inv * (gtempdata ! nat i - gudata ! nat i)))
      else A)"
  by pat_completeness auto
termination
  by (relation "measure (\<lambda>(inc_inv, gtempdata, gudata, j, i2, i, A). nat (i2 + 1 - i))") auto

declare row_loop.simps [simp del]

text \<open>
  Second inner loop ("Restore utemp, then form and load difference quotients"), on the
  pair of \<open>utempdata\<close> and \<open>J\<close>.
\<close>

definition fill_body ::
  "real \<Rightarrow> int \<Rightarrow> int \<Rightarrow> int \<Rightarrow> real list \<Rightarrow> real list \<Rightarrow> real list \<Rightarrow> real list \<Rightarrow>
   int \<Rightarrow> real list \<times> BandMat \<Rightarrow> kerror + real list \<times> BandMat" where
  "fill_body r mu_v ml_v Nlocal udata uscdata gudata gtempdata j s =
     (case s of (utempdata, A) \<Rightarrow>
        let utempdata' = utempdata[nat j := udata ! nat j] in
        (case dq_inc r udata uscdata j of
           Inl e \<Rightarrow> Inl e
         | Inr inc \<Rightarrow>
             (case rdiv 1 inc of
                Inl e \<Rightarrow> Inl e
              | Inr inc_inv \<Rightarrow>
                  let i1 = max 0 (j - mu_v);
                      i2 = min (j + ml_v) (Nlocal - 1)
                  in Inr (utempdata', row_loop inc_inv gtempdata gudata j i2 i1 A))))"

text \<open>
  The loop over the groups, \<open>for (group = 1; group <= ngroups; group++)\<close>; the
  variable \<open>group\<close> of the code is \<open>grp\<close> here.
\<close>

function group_loop ::
  "'fd KBBDData \<Rightarrow> int \<Rightarrow> real list \<Rightarrow> real list \<Rightarrow> int \<Rightarrow> int \<Rightarrow> int \<Rightarrow> 'fd dq_state \<Rightarrow>
   (kerror + 'fd dq_state) option" where
  "group_loop pdata Nlocal udata uscdata width ngroups grp s =
     (if grp \<le> ngroups then
        (case col_loop Nlocal width (incr_body (rel_uu pdata) udata uscdata) (grp - 1) (dq_utemp s) of
           None \<Rightarrow> None
         | Some (Inl e) \<Rightarrow> Some (Inl e)
         | Some (Inr utempdata) \<Rightarrow>
             let gtempdata = gloc pdata Nlocal utempdata (dq_f_data s) in
             (case col_loop Nlocal width
                     (fill_body (rel_uu pdata) (mu pdata) (ml pdata) Nlocal udata uscdata (dq_gu s) gtempdata)
                     (grp - 1) (utempdata, dq_J s) of
                None \<Rightarrow> None
              | Some (Inl e) \<Rightarrow> Some (Inl e)
              | Some (Inr (utempdata', A)) \<Rightarrow>
                  group_loop pdata Nlocal udata uscdata width ngroups (grp + 1)
                    (s\<lparr>dq_J := A, dq_gtemp := gtempdata, dq_utemp := utempdata',
                       dq_calls := dq_calls s @ [utempdata]\<rparr>)))
      else Some (Inr s))"
  by pat_completeness auto
termination
  by (relation "measure (\<lambda>(pdata, Nlocal, udata, uscdata, width, ngroups, grp, s). nat (ngroups + 1 - grp))") auto

declare group_loop.simps [simp del]

definition KBBDDQJac ::
  "int \<Rightarrow> BandMat \<Rightarrow> 'fd KBBDData \<Rightarrow> real list \<Rightarrow> real list \<Rightarrow> real list \<Rightarrow> real list \<Rightarrow> real list \<Rightarrow>
   (kerror + 'fd dq_state) option" where
  "KBBDDQJac Nlocal A pdata uu uscale gu gtemp utemp =
     (let udata = uu;
          uscdata = uscale;
          utemp' = N_VScale 1 uu utemp;
          f_data' = gcomm pdata Nlocal udata (f_data pdata);
          gu' = gloc pdata Nlocal uu f_data';
          width = ml pdata + mu pdata + 1;
          ngroups = min width Nlocal
      in group_loop pdata Nlocal udata uscdata width ngroups 1
           \<lparr>dq_J = A, dq_gu = gu', dq_gtemp = gtemp, dq_utemp = utemp',
            dq_f_data = f_data', dq_calls = [uu]\<rparr>)"

subsection \<open>KBBDPrecon and KBBDPSol\<close>

text \<open>
  \<open>BandFactor\<close> and \<open>BandBacksolve\<close> belong to the band module, which is not among the
  sources; they are parameters. \<open>BandFactor\<close> gives the factored matrix, the pivot
  array it fills and its return value \<open>ier\<close>. What a call of \<open>KBBDPrecon\<close> leaves
  behind: its return value, the data block, the two work vectors of the caller, and
  the arguments of its calls of \<open>gloc\<close>.
\<close>

record 'fd precon_result =
  p_ret :: int
  p_data :: "'fd KBBDData"
  p_vtemp1 :: "real list"
  p_vtemp2 :: "real list"
  p_calls :: "real list list"

definition KBBDPrecon ::
  "(BandMat \<Rightarrow> BandMat \<times> int list \<times> int) \<Rightarrow> 'fd KBBDData \<Rightarrow> real list \<Rightarrow> real list \<Rightarrow>
   real list \<Rightarrow> real list \<Rightarrow> (kerror + 'fd precon_result) option" where
  "KBBDPrecon BandFactor pdata uu uscale vtemp1 vtemp2 =
     (let Nlocal = n_local pdata in
      case PP pdata of
        None \<Rightarrow> Some (Inl NullPointer)
      | Some A \<Rightarrow>
          (case vtemp3 pdata of
             None \<Rightarrow> Some (Inl NullPointer)
           | Some utemp \<Rightarrow>
               (case KBBDDQJac Nlocal (BandZero A) pdata uu uscale vtemp1 vtemp2 utemp of
                  None \<Rightarrow> None
                | Some (Inl e) \<Rightarrow> Some (Inl e)
                | Some (Inr s) \<Rightarrow>
                    let nge' = nge pdata + (1 + min (ml pdata + mu pdata + 1) Nlocal) in
                    (case pivots pdata of
                       None \<Rightarrow> Some (Inl NullPointer)
                     | Some p \<Rightarrow>
                         (case BandFactor (dq_J s) of
                            (A', p', ier) \<Rightarrow>
                              Some (Inr \<lparr>p_ret = (if ier > 0 then 1 else 0),
                                         p_data = pdata\<lparr>f_data := dq_f_data s, PP := Some A',
                                                    pivots := Some p', vtemp3 := Some (dq_utemp s),
                                                    nge := nge'\<rparr>,
                                         p_vtemp1 = dq_gu s, p_vtemp2 = dq_gtemp s,
                                         p_calls = dq_calls s\<rparr>))))))"

text \<open>
  \<open>KBBDPSol\<close> gives its return value and the vector \<open>vtem\<close>; it writes nothing to the
  data block.
\<close>

definition KBBDPSol ::
  "(BandMat \<Rightarrow> int list \<Rightarrow> real list \<Rightarrow> real list) \<Rightarrow> 'fd KBBDData \<Rightarrow> real list \<Rightarrow>
   kerror + int \<times> real list" where
  "KBBDPSol BandBacksolve pdata vtem =
     (case PP pdata of
        None \<Rightarrow> Inl NullPointer
      | Some A \<Rightarrow>
          (case pivots pdata of
             None \<Rightarrow> Inl NullPointer
           | Some p \<Rightarrow> Inr (0, BandBacksolve A p vtem)))"

subsection \<open>What the difference-quotient builder is to compute\<close>

text \<open>
  The quantities of the builder as the design states them, to compare the code with:
  the increment of the unknown \<open>k\<close>, the state perturbed for a group (every unknown
  whose index is \<open>group - 1\<close> modulo the width is incremented), and the difference
  quotient for the row \<open>i\<close> and the column \<open>c\<close>, which belongs to the group
  \<open>c mod width + 1\<close>.
\<close>

definition dq_increment :: "real \<Rightarrow> real list \<Rightarrow> real list \<Rightarrow> nat \<Rightarrow> real" where
  "dq_increment r u usc k = r * max \<bar>u ! k\<bar> (1 / usc ! k)"

definition perturbed :: "real \<Rightarrow> int \<Rightarrow> int \<Rightarrow> real list \<Rightarrow> real list \<Rightarrow> int \<Rightarrow> real list" where
  "perturbed r width Nlocal u usc grp =
     map (\<lambda>k. if int k mod width = grp - 1 \<and> int k < Nlocal
               then u ! k + dq_increment r u usc k else u ! k) [0..<length u]"

definition dq_quotient ::
  "(real list \<Rightarrow> real list) \<Rightarrow> real \<Rightarrow> int \<Rightarrow> int \<Rightarrow> real list \<Rightarrow> real list \<Rightarrow> int \<Rightarrow> int \<Rightarrow> real" where
  "dq_quotient G r width Nlocal u usc i c =
     (G (perturbed r width Nlocal u usc (c mod width + 1)) ! nat i - G u ! nat i)
       / dq_increment r u usc (nat c)"

text \<open>The rows of the column \<open>c\<close> that the builder fills: the band, clipped to the matrix.\<close>

definition in_band :: "int \<Rightarrow> int \<Rightarrow> int \<Rightarrow> int \<Rightarrow> int \<Rightarrow> bool" where
  "in_band mu_v ml_v Nlocal i c \<longleftrightarrow> max 0 (c - mu_v) \<le> i \<and> i \<le> min (c + ml_v) (Nlocal - 1)"

text \<open>
  The entries after the groups before \<open>grp\<close> have been handled, and after all of them:
  \<open>f\<close> gives the entries as they were before the builder ran.
\<close>

definition dq_columns ::
  "(real list \<Rightarrow> real list) \<Rightarrow> real \<Rightarrow> int \<Rightarrow> int \<Rightarrow> int \<Rightarrow> int \<Rightarrow> real list \<Rightarrow> real list \<Rightarrow>
   int \<Rightarrow> (int \<times> int \<Rightarrow> real) \<Rightarrow> int \<times> int \<Rightarrow> real" where
  "dq_columns G r mu_v ml_v width Nlocal u usc grp f =
     (\<lambda>(i, c). if 0 \<le> c \<and> c < Nlocal \<and> c mod width < grp - 1 \<and> in_band mu_v ml_v Nlocal i c
               then dq_quotient G r width Nlocal u usc i c else f (i, c))"

definition dq_matrix ::
  "(real list \<Rightarrow> real list) \<Rightarrow> real \<Rightarrow> int \<Rightarrow> int \<Rightarrow> int \<Rightarrow> int \<Rightarrow> real list \<Rightarrow> real list \<Rightarrow>
   (int \<times> int \<Rightarrow> real) \<Rightarrow> int \<times> int \<Rightarrow> real" where
  "dq_matrix G r mu_v ml_v width Nlocal u usc f =
     (\<lambda>(i, c). if 0 \<le> c \<and> c < Nlocal \<and> in_band mu_v ml_v Nlocal i c
               then dq_quotient G r width Nlocal u usc i c else f (i, c))"

text \<open>
  A rebuild is defined when the vectors \<open>uu\<close> and \<open>uscale\<close> have \<open>Nlocal\<close> components
  (the code reads \<open>udata[j]\<close> and \<open>uscdata[j]\<close> for every \<open>j\<close> below \<open>Nlocal\<close>, and C
  gives no value to a read outside an array) and no division is by zero: for every
  unknown, neither the scale component nor the increment is zero.
\<close>

definition dq_defined :: "real \<Rightarrow> int \<Rightarrow> real list \<Rightarrow> real list \<Rightarrow> bool" where
  "dq_defined r Nlocal u usc \<longleftrightarrow>
     length u = nat Nlocal \<and> length usc = nat Nlocal \<and>
     list_all (\<lambda>k. usc ! k \<noteq> 0 \<and> dq_increment r u usc k \<noteq> 0) [0..<nat Nlocal]"

text \<open>
  The matrix the builder leaves in \<open>J\<close> when it starts from \<open>A\<close>: with a positive
  width every column is filled, otherwise no group is formed and \<open>A\<close> is left as it is.
\<close>

definition dq_jacobian :: "'fd KBBDData \<Rightarrow> int \<Rightarrow> BandMat \<Rightarrow> real list \<Rightarrow> real list \<Rightarrow> BandMat" where
  "dq_jacobian pdata Nlocal A u usc =
     (if 0 < ml pdata + mu pdata + 1
      then A\<lparr>b_elem := dq_matrix (\<lambda>x. gloc pdata Nlocal x (gcomm pdata Nlocal u (f_data pdata)))
                            (rel_uu pdata) (mu pdata) (ml pdata) (ml pdata + mu pdata + 1)
                            Nlocal u usc (b_elem A)\<rparr>
      else A)"



subsection \<open>Concrete data for the examples\<close>

text \<open>
  A compatible vector environment, allocators that succeed, \<open>RSqrt\<close> as the square
  root (0 for an argument that is not positive), a local function that returns its
  argument (its Jacobian is the identity), a communication function that does nothing,
  and the band routines for a matrix of size 1: the factorization is singular, at the
  column 1, when the one entry is zero, and the backsolve then leaves the right-hand
  side as it is.
\<close>

definition ex_machenv :: M_Env where
  "ex_machenv = \<lparr>tag = ''parallel'',
                 ops = \<lparr>nvmake = Some (), nvdispose = Some (), nvgetdata = Some (), nvsetdata = Some ()\<rparr>\<rparr>"

definition ex_kin_mem :: KINMem where
  "ex_kin_mem = \<lparr>kin_machenv = ex_machenv, kin_uround = 1 / 4\<rparr>"

definition ex_band :: "int \<Rightarrow> int \<Rightarrow> int \<Rightarrow> int \<Rightarrow> BandMat" where
  "ex_band n m l s = \<lparr>b_size = n, b_mu = m, b_ml = l, b_smu = s, b_elem = (\<lambda>_. 0)\<rparr>"

definition ex_env :: alloc_env where
  "ex_env = \<lparr>malloc_pdata = True,
             BandAllocMat = (\<lambda>n m l s. Some (ex_band n m l s)),
             BandAllocPiv = (\<lambda>n. Some (replicate (nat n) 0)),
             N_VNew = (\<lambda>n e. Some (replicate (nat n) 0)),
             RSqrt = (\<lambda>x. if x \<le> 0 then 0 else sqrt x)\<rparr>"

definition ex_gloc :: "int \<Rightarrow> real list \<Rightarrow> unit \<Rightarrow> real list" where
  "ex_gloc n x fd = x"

definition ex_gcomm :: "int \<Rightarrow> real list \<Rightarrow> unit \<Rightarrow> unit" where
  "ex_gcomm n x fd = fd"

definition ex_pdata :: "int \<Rightarrow> int \<Rightarrow> int \<Rightarrow> unit KBBDData" where
  "ex_pdata n m l =
     \<lparr>f_data = (), ml = l, mu = m, gloc = ex_gloc, gcomm = ex_gcomm,
      PP = Some (ex_band n m l (m + l)), pivots = Some (replicate (nat n) 0),
      vtemp3 = Some (replicate (nat n) 0), rel_uu = 1 / 2, n_local = n,
      rpwsize = n * (2 * m + l + 1), ipwsize = n, nge = 0\<rparr>"

definition ex_BandFactor :: "BandMat \<Rightarrow> BandMat \<times> int list \<times> int" where
  "ex_BandFactor A = (A, [0], if b_elem A (0, 0) = 0 then 1 else 0)"

definition ex_BandBacksolve :: "BandMat \<Rightarrow> int list \<Rightarrow> real list \<Rightarrow> real list" where
  "ex_BandBacksolve A p b =
     (if b_elem A (0, 0) = 0 then b else map (\<lambda>x. x / b_elem A (0, 0)) b)"

section \<open>The loops of the builder\<close>

text \<open>
  The inner loops are characterised by an invariant rule for \<open>col_loop\<close>; the loop
  over the groups and the builder as a whole then have closed forms, valid when no
  division is by zero.
\<close>

lemma col_loop_inv:
  assumes w: "0 < width"
    and step: "\<And>j s. P j s \<Longrightarrow> j < Nlocal \<Longrightarrow> \<exists>s'. body j s = Inr s' \<and> P (j + width) s'"
    and init: "P j s"
  shows "\<exists>j' s'. col_loop Nlocal width body j s = Some (Inr s') \<and> Nlocal \<le> j' \<and> P j' s'"
  using init
proof (induction "nat (Nlocal - j)" arbitrary: j s rule: less_induct)
  case less
  show ?case
  proof (cases "j < Nlocal")
    case False
    then have "col_loop Nlocal width body j s = Some (Inr s)"
      by (subst col_loop.simps) simp
    with False less.prems show ?thesis by (intro exI[of _ j] exI[of _ s]) simp
  next
    case True
    from step[OF less.prems True] obtain s1 where s1: "body j s = Inr s1" "P (j + width) s1"
      by blast
    from True w have "nat (Nlocal - (j + width)) < nat (Nlocal - j)" by simp
    from less.hyps[OF this s1(2)] obtain j' s' where
      r: "col_loop Nlocal width body (j + width) s1 = Some (Inr s')" "Nlocal \<le> j'" "P j' s'"
      by blast
    have "col_loop Nlocal width body j s = col_loop Nlocal width body (j + width) s1"
      using True s1(1) by (subst col_loop.simps) simp
    with r show ?thesis by metis
  qed
qed

lemma row_loop_eq:
  "row_loop inc_inv gt gud j i2 i A =
     A\<lparr>b_elem := (\<lambda>(r, c). if c = j \<and> i \<le> r \<and> r \<le> i2
                          then inc_inv * (gt ! nat r - gud ! nat r) else b_elem A (r, c))\<rparr>"
proof (induction inc_inv gt gud j i2 i A rule: row_loop.induct)
  case (1 inc_inv gt gud j i2 i A)
  show ?case
  proof (cases "i \<le> i2")
    case False
    then show ?thesis by (subst row_loop.simps) (simp add: fun_eq_iff)
  next
    case True
    have "row_loop inc_inv gt gud j i2 i A =
          row_loop inc_inv gt gud j i2 (i + 1)
            (set_BAND_COL_ELEM A i j (inc_inv * (gt ! nat i - gud ! nat i)))"
      using True by (subst row_loop.simps) simp
    also have "\<dots> = A\<lparr>b_elem := (\<lambda>(r, c). if c = j \<and> i \<le> r \<and> r \<le> i2
                          then inc_inv * (gt ! nat r - gud ! nat r) else b_elem A (r, c))\<rparr>"
      unfolding 1[OF True] using True
      by (auto simp: set_BAND_COL_ELEM_def fun_eq_iff)
    finally show ?thesis .
  qed
qed

lemma mod_same_window:
  fixes k j w :: int
  assumes "k mod w = j mod w" "j \<le> k" "k < j + w"
  shows "k = j"
proof -
  have "(k - j) mod w = 0" using assms(1) by (simp add: mod_eq_dvd_iff mod_eq_0_iff_dvd)
  moreover have "(k - j) mod w = k - j" using assms(2,3) by (simp add: mod_pos_pos_trivial)
  ultimately show ?thesis by simp
qed


lemma dq_definedD:
  assumes "dq_defined r N u usc" "0 \<le> j" "j < N"
  shows "usc ! nat j \<noteq> 0" "dq_increment r u usc (nat j) \<noteq> 0"
  using assms by (auto simp: dq_defined_def list_all_iff)

lemma dq_inc_defined:
  assumes "usc ! nat j \<noteq> 0"
  shows "dq_inc r u usc j = Inr (dq_increment r u usc (nat j))"
  using assms by (simp add: dq_inc_def rdiv_def dq_increment_def)

lemma incr_loop:
  assumes w: "0 < w" and g: "1 \<le> g" "g \<le> w" and d: "dq_defined r N u usc"
  shows "col_loop N w (incr_body r u usc) (g - 1) u = Some (Inr (perturbed r w N u usc g))"
proof -
  define P where "P j ut \<longleftrightarrow> 0 \<le> j \<and> j mod w = g - 1 \<and> length ut = length u \<and>
      (\<forall>k<length u. ut ! k = (if int k mod w = g - 1 \<and> int k < j \<and> int k < N
                              then u ! k + dq_increment r u usc k else u ! k))" for j ut
  have step: "\<exists>s'. incr_body r u usc j s = Inr s' \<and> P (j + w) s'" if "P j s" "j < N" for j s
  proof -
    from that have j: "0 \<le> j" "j mod w = g - 1" and len: "length s = length u"
      and nth: "\<And>k. k < length u \<Longrightarrow> s ! k = (if int k mod w = g - 1 \<and> int k < j \<and> int k < N
                              then u ! k + dq_increment r u usc k else u ! k)"
      by (auto simp: P_def)
    have inc: "dq_inc r u usc j = Inr (dq_increment r u usc (nat j))"
      using dq_definedD(1)[OF d j(1) that(2)] by (rule dq_inc_defined)
    let ?s' = "s[nat j := s ! nat j + dq_increment r u usc (nat j)]"
    have "incr_body r u usc j s = Inr ?s'" by (simp add: incr_body_def inc)
    moreover have "P (j + w) ?s'"
      unfolding P_def
    proof (intro conjI allI impI)
      show "0 \<le> j + w" using j w by simp
      show "(j + w) mod w = g - 1" using j by simp
      show "length ?s' = length u" using len by simp
      fix k assume k: "k < length u"
      show "?s' ! k = (if int k mod w = g - 1 \<and> int k < j + w \<and> int k < N
                       then u ! k + dq_increment r u usc k else u ! k)"
      proof (cases "k = nat j")
        case True
        then have kj: "int k = j" using j by simp
        have "s ! k = u ! k" using nth[OF k] kj by simp
        then show ?thesis using True k len kj j w that(2) by simp
      next
        case False
        then have ne: "int k \<noteq> j" using j by auto
        have "int k < j" if "int k mod w = g - 1" "int k < j + w"
          using mod_same_window[of "int k" w j] that j ne by force
        then show ?thesis using False nth[OF k] w by auto
      qed
    qed
    ultimately show ?thesis by blast
  qed
  have init: "P (g - 1) u"
    unfolding P_def using g w by (auto simp: mod_pos_pos_trivial)
  from col_loop_inv[of w P N "incr_body r u usc", OF w step init]
  obtain j' s' where r: "col_loop N w (incr_body r u usc) (g - 1) u = Some (Inr s')"
    "N \<le> j'" "P j' s'" by blast
  have "s' = perturbed r w N u usc g"
    using r(2,3) by (intro nth_equalityI) (auto simp: P_def perturbed_def)
  with r(1) show ?thesis by simp
qed

lemma fill_loop:
  assumes w: "0 < w" and g: "1 \<le> g" "g \<le> w" and d: "dq_defined r N u usc"
  shows "col_loop N w (fill_body r m l N u usc gud gt) (g - 1) (perturbed r w N u usc g, A) =
     Some (Inr (u, A\<lparr>b_elem := (\<lambda>(i, c).
        if 0 \<le> c \<and> c < N \<and> c mod w = g - 1 \<and> in_band m l N i c
        then 1 / dq_increment r u usc (nat c) * (gt ! nat i - gud ! nat i)
        else b_elem A (i, c))\<rparr>))"
proof -
  define F where "F j = (\<lambda>(i, c).
        if 0 \<le> c \<and> c < j \<and> c < N \<and> c mod w = g - 1 \<and> in_band m l N i c
        then 1 / dq_increment r u usc (nat c) * (gt ! nat i - gud ! nat i)
        else b_elem A (i, c))" for j
  define Q where "Q j s \<longleftrightarrow> 0 \<le> j \<and> j mod w = g - 1 \<and> length (fst s) = length u \<and>
      (\<forall>k<length u. fst s ! k = (if int k mod w = g - 1 \<and> int k < N \<and> j \<le> int k
                              then u ! k + dq_increment r u usc k else u ! k)) \<and>
      snd s = A\<lparr>b_elem := F j\<rparr>" for j s
  have step: "\<exists>s'. fill_body r m l N u usc gud gt j s = Inr s' \<and> Q (j + w) s'"
    if "Q j s" "j < N" for j s
  proof -
    obtain ut B where s: "s = (ut, B)" by (cases s)
    from that s have j: "0 \<le> j" "j mod w = g - 1" and len: "length ut = length u"
      and nth: "\<And>k. k < length u \<Longrightarrow> ut ! k = (if int k mod w = g - 1 \<and> int k < N \<and> j \<le> int k
                              then u ! k + dq_increment r u usc k else u ! k)"
      and B: "B = A\<lparr>b_elem := F j\<rparr>"
      by (auto simp: Q_def)
    have inc: "dq_inc r u usc j = Inr (dq_increment r u usc (nat j))"
      using dq_definedD(1)[OF d j(1) that(2)] by (rule dq_inc_defined)
    have nz: "dq_increment r u usc (nat j) \<noteq> 0"
      using dq_definedD(2)[OF d j(1) that(2)] .
    let ?ut = "ut[nat j := u ! nat j]"
    let ?B = "row_loop (1 / dq_increment r u usc (nat j)) gt gud j (min (j + l) (N - 1)) (max 0 (j - m)) B"
    have "fill_body r m l N u usc gud gt j s = Inr (?ut, ?B)"
      using nz by (simp add: fill_body_def s inc rdiv_def)
    moreover have "Q (j + w) (?ut, ?B)"
      unfolding Q_def fst_conv snd_conv
    proof (intro conjI allI impI)
      show "0 \<le> j + w" using j w by simp
      show "(j + w) mod w = g - 1" using j by simp
      show "length ?ut = length u" using len by simp
      show "?B = A\<lparr>b_elem := F (j + w)\<rparr>"
      proof -
        have lt: "c < j" if "c mod w = g - 1" "c < j + w" "c \<noteq> j" for c
          using mod_same_window[of c w j] that j by force
        have bB: "b_elem B = F j" by (simp add: B)
        have eq: "(\<lambda>(ra, c). if c = j \<and> max 0 (j - m) \<le> ra \<and> ra \<le> min (j + l) (N - 1)
                 then 1 / dq_increment r u usc (nat j) * (gt ! nat ra - gud ! nat ra)
                 else F j (ra, c)) = F (j + w)"
          using j w that(2) lt by (auto simp: F_def fun_eq_iff in_band_def)
        have "?B = B\<lparr>b_elem := (\<lambda>(ra, c). if c = j \<and> max 0 (j - m) \<le> ra \<and> ra \<le> min (j + l) (N - 1)
                 then 1 / dq_increment r u usc (nat j) * (gt ! nat ra - gud ! nat ra)
                 else b_elem B (ra, c))\<rparr>"
          by (rule row_loop_eq)
        also have "\<dots> = B\<lparr>b_elem := F (j + w)\<rparr>"
          unfolding bB eq ..
        also have "\<dots> = A\<lparr>b_elem := F (j + w)\<rparr>"
          by (simp add: B)
        finally show ?thesis .
      qed
      fix k assume k: "k < length u"
      show "?ut ! k = (if int k mod w = g - 1 \<and> int k < N \<and> j + w \<le> int k
                       then u ! k + dq_increment r u usc k else u ! k)"
      proof (cases "k = nat j")
        case True
        then show ?thesis using k len j w by simp
      next
        case False
        then have ne: "int k \<noteq> j" using j by auto
        have "j + w \<le> int k" if "int k mod w = g - 1" "j \<le> int k"
          using mod_same_window[of "int k" w j] that j ne by force
        then show ?thesis using False nth[OF k] w by auto
      qed
    qed
    ultimately show ?thesis by blast
  qed
  have "F (g - 1) = b_elem A"
    using g w by (auto simp: F_def fun_eq_iff mod_pos_pos_trivial)
  moreover have "int k mod w = g - 1 \<Longrightarrow> g - 1 \<le> int k" for k
    using w pos_mod_bound[of w "int k"] zmod_le_nonneg_dividend[of "int k" w] by simp
  ultimately have init: "Q (g - 1) (perturbed r w N u usc g, A)"
    unfolding Q_def using g w by (auto simp: perturbed_def mod_pos_pos_trivial)
  from col_loop_inv[of w Q N "fill_body r m l N u usc gud gt", OF w step init]
  obtain j' s' where r: "col_loop N w (fill_body r m l N u usc gud gt) (g - 1)
       (perturbed r w N u usc g, A) = Some (Inr s')"
    "N \<le> j'" "Q j' s'" by blast
  have "fst s' = u"
    using r(2,3) by (intro nth_equalityI) (auto simp: Q_def)
  moreover have "F j' = (\<lambda>(i, c).
        if 0 \<le> c \<and> c < N \<and> c mod w = g - 1 \<and> in_band m l N i c
        then 1 / dq_increment r u usc (nat c) * (gt ! nat i - gud ! nat i)
        else b_elem A (i, c))"
    using r(2) by (auto simp: F_def fun_eq_iff)
  ultimately have "s' = (u, A\<lparr>b_elem := (\<lambda>(i, c).
        if 0 \<le> c \<and> c < N \<and> c mod w = g - 1 \<and> in_band m l N i c
        then 1 / dq_increment r u usc (nat c) * (gt ! nat i - gud ! nat i)
        else b_elem A (i, c))\<rparr>)"
    using r(3) by (cases s') (simp add: Q_def)
  with r(1) show ?thesis by simp
qed


lemma group_loop_eq:
  assumes w: "0 < w" and d: "dq_defined (rel_uu pdata) N u usc"
    and ng: "ng \<le> w" and grp: "1 \<le> grp" "grp \<le> ng + 1"
    and G: "G = (\<lambda>x. gloc pdata N x fd)"
  shows "group_loop pdata N u usc w ng grp
           \<lparr>dq_J = A\<lparr>b_elem := dq_columns G (rel_uu pdata) (mu pdata) (ml pdata) w N u usc grp f\<rparr>,
            dq_gu = G u, dq_gtemp = gt, dq_utemp = u, dq_f_data = fd, dq_calls = cs\<rparr> =
         Some (Inr
           \<lparr>dq_J = A\<lparr>b_elem := dq_columns G (rel_uu pdata) (mu pdata) (ml pdata) w N u usc (ng + 1) f\<rparr>,
            dq_gu = G u,
            dq_gtemp = (if grp \<le> ng then G (perturbed (rel_uu pdata) w N u usc ng) else gt),
            dq_utemp = u, dq_f_data = fd,
            dq_calls = cs @ map (perturbed (rel_uu pdata) w N u usc) [grp..ng]\<rparr>)"
  using grp
proof (induction "nat (ng + 1 - grp)" arbitrary: grp gt cs rule: less_induct)
  case less
  let ?r = "rel_uu pdata" and ?m = "mu pdata" and ?l = "ml pdata"
  let ?C = "\<lambda>g. dq_columns G ?r ?m ?l w N u usc g f"
  show ?case
  proof (cases "grp \<le> ng")
    case False
    with less.prems have "grp = ng + 1" by simp
    then show ?thesis by (subst group_loop.simps) simp
  next
    case True
    have g: "1 \<le> grp" "grp \<le> w" using less.prems True ng by auto
    let ?p = "perturbed ?r w N u usc grp"
    have 1: "col_loop N w (incr_body ?r u usc) (grp - 1) u = Some (Inr ?p)"
      by (rule incr_loop[OF w g d])
    have 2: "col_loop N w (fill_body ?r ?m ?l N u usc (G u) (G ?p)) (grp - 1)
               (?p, A\<lparr>b_elem := ?C grp\<rparr>) =
             Some (Inr (u, A\<lparr>b_elem := ?C (grp + 1)\<rparr>))"
    proof -
      have "(\<lambda>(i, c). if 0 \<le> c \<and> c < N \<and> c mod w = grp - 1 \<and> in_band ?m ?l N i c
               then 1 / dq_increment ?r u usc (nat c) * (G ?p ! nat i - G u ! nat i)
               else b_elem (A\<lparr>b_elem := ?C grp\<rparr>) (i, c)) = ?C (grp + 1)"
        by (auto simp: dq_columns_def dq_quotient_def fun_eq_iff)
      then show ?thesis
        using fill_loop[OF w g d, of ?m ?l "G u" "G ?p" "A\<lparr>b_elem := ?C grp\<rparr>"] by simp
    qed
    have 3: "nat (ng + 1 - (grp + 1)) < nat (ng + 1 - grp)" using True by simp
    have 4: "1 \<le> grp + 1" "grp + 1 \<le> ng + 1" using g True by auto
    have "group_loop pdata N u usc w ng grp
           \<lparr>dq_J = A\<lparr>b_elem := ?C grp\<rparr>,
            dq_gu = G u, dq_gtemp = gt, dq_utemp = u, dq_f_data = fd, dq_calls = cs\<rparr> =
          group_loop pdata N u usc w ng (grp + 1)
           \<lparr>dq_J = A\<lparr>b_elem := ?C (grp + 1)\<rparr>,
            dq_gu = G u, dq_gtemp = G ?p, dq_utemp = u, dq_f_data = fd, dq_calls = cs @ [?p]\<rparr>"
    proof -
      have gp: "gloc pdata N ?p fd = G ?p" by (simp add: G)
      show ?thesis
        using True by (subst group_loop.simps) (simp add: Let_def 1 gp 2)
    qed
    also note less.hyps[OF 3 4, of "G ?p" "cs @ [?p]"]
    finally have res: "group_loop pdata N u usc w ng grp
           \<lparr>dq_J = A\<lparr>b_elem := ?C grp\<rparr>,
            dq_gu = G u, dq_gtemp = gt, dq_utemp = u, dq_f_data = fd, dq_calls = cs\<rparr> =
         Some (Inr
           \<lparr>dq_J = A\<lparr>b_elem := ?C (ng + 1)\<rparr>,
            dq_gu = G u,
            dq_gtemp = (if grp + 1 \<le> ng then G (perturbed ?r w N u usc ng) else G ?p),
            dq_utemp = u, dq_f_data = fd,
            dq_calls = (cs @ [?p]) @ map (perturbed ?r w N u usc) [grp + 1..ng]\<rparr>)" .
    show ?thesis
    proof (cases "grp = ng")
      case True
      then show ?thesis using res
        by (simp add: upto_rec1[of ng ng])
    next
      case False
      with \<open>grp \<le> ng\<close> have "grp + 1 \<le> ng" by simp
      then show ?thesis using res \<open>grp \<le> ng\<close>
        by (simp add: upto_rec1[of grp ng])
    qed
  qed
qed


lemma group_loop_done:
  "\<not> grp \<le> ng \<Longrightarrow> group_loop pdata N u usc w ng grp s = Some (Inr s)"
  by (subst group_loop.simps) simp

lemma dq_columns_first:
  assumes "0 < w"
  shows "dq_columns G r m l w N u usc 1 f = f"
proof -
  have "\<not> c mod w < 0" for c using assms by (simp add: not_less)
  then show ?thesis by (auto simp: dq_columns_def fun_eq_iff)
qed

lemma dq_columns_last:
  assumes "0 < w"
  shows "dq_columns G r m l w N u usc (min w N + 1) f = dq_matrix G r m l w N u usc f"
proof -
  have "c mod w < min w N" if "0 \<le> c" "c < N" for c
    using that assms pos_mod_bound[of w c] zmod_le_nonneg_dividend[of c w] by simp
  then show ?thesis
    by (auto simp: dq_columns_def dq_matrix_def fun_eq_iff)
qed

lemma N_VScale_one: "N_VScale 1 x z = x"
  by (simp add: N_VScale_def)

lemma KBBDDQJac_eq:
  fixes pdata :: "'fd KBBDData" and N :: int and u :: "real list"
  defines "w \<equiv> ml pdata + mu pdata + 1"
  defines "fd \<equiv> gcomm pdata N u (f_data pdata)"
  defines "G \<equiv> (\<lambda>x. gloc pdata N x (gcomm pdata N u (f_data pdata)))"
  assumes w: "0 < ml pdata + mu pdata + 1" and d: "dq_defined (rel_uu pdata) N u usc"
  shows "KBBDDQJac N A pdata u usc gu gtemp utemp =
         Some (Inr
           \<lparr>dq_J = A\<lparr>b_elem := dq_matrix G (rel_uu pdata) (mu pdata) (ml pdata) w N u usc (b_elem A)\<rparr>,
            dq_gu = G u,
            dq_gtemp = (if 1 \<le> min w N then G (perturbed (rel_uu pdata) w N u usc (min w N)) else gtemp),
            dq_utemp = u, dq_f_data = fd,
            dq_calls = u # map (perturbed (rel_uu pdata) w N u usc) [1..min w N]\<rparr>)"
proof -
  have w0: "0 < w" using w by (simp add: w_def)
  have G: "G = (\<lambda>x. gloc pdata N x fd)" by (simp add: G_def fd_def)
  have unf: "KBBDDQJac N A pdata u usc gu gtemp utemp =
      group_loop pdata N u usc w (min w N) 1
           \<lparr>dq_J = A\<lparr>b_elem := dq_columns G (rel_uu pdata) (mu pdata) (ml pdata) w N u usc 1 (b_elem A)\<rparr>,
            dq_gu = G u, dq_gtemp = gtemp, dq_utemp = u, dq_f_data = fd, dq_calls = [u]\<rparr>"
    by (simp only: dq_columns_first[OF w0])
       (simp add: KBBDDQJac_def Let_def N_VScale_one w_def fd_def G_def)
  show ?thesis
  proof (cases "1 \<le> min w N")
    case True
    have "min w N \<le> w" "(1::int) \<le> 1" "1 \<le> min w N + 1" using True by auto
    from group_loop_eq[OF w0 d this G, where A=A and f="b_elem A" and gt=gtemp and cs="[u]"] True
    show ?thesis
      unfolding unf by (simp add: dq_columns_last[OF w0])
  next
    case False
    then have N: "N \<le> 0" using w0 by auto
    have dm: "dq_matrix G (rel_uu pdata) (mu pdata) (ml pdata) w N u usc (b_elem A) = b_elem A"
      using N by (auto simp: dq_matrix_def fun_eq_iff)
    define ng where "ng = min w N"
    have ng: "\<not> 1 \<le> ng" unfolding ng_def by (rule False)
    have e: "[1..ng] = []" using ng by simp
    have gl: "group_loop pdata N u usc w ng 1 s = Some (Inr s)" for s
      using ng by (rule group_loop_done)
    show ?thesis
      unfolding unf dq_columns_first[OF w0] dm ng_def[symmetric] using ng
      by (simp add: gl e)
  qed
qed

lemma KBBDDQJac_no_groups:
  fixes pdata :: "'fd KBBDData"
  assumes "min (ml pdata + mu pdata + 1) N < 1"
  shows "KBBDDQJac N A pdata u usc gu gtemp utemp =
         Some (Inr
           \<lparr>dq_J = A, dq_gu = gloc pdata N u (gcomm pdata N u (f_data pdata)),
            dq_gtemp = gtemp, dq_utemp = u, dq_f_data = gcomm pdata N u (f_data pdata),
            dq_calls = [u]\<rparr>)"
proof -
  have "\<not> 1 \<le> min (ml pdata + mu pdata + 1) N" using assms by arith
  then have "group_loop pdata N u usc (ml pdata + mu pdata + 1) (min (ml pdata + mu pdata + 1) N) 1 s
             = Some (Inr s)" for s
    by (rule group_loop_done)
  then show ?thesis
    by (simp add: KBBDDQJac_def Let_def N_VScale_one)
qed



lemma KBBDDQJac_result:
  fixes pdata :: "'fd KBBDData" and N :: int and u :: "real list"
  defines "w \<equiv> ml pdata + mu pdata + 1"
  defines "fd \<equiv> gcomm pdata N u (f_data pdata)"
  defines "G \<equiv> (\<lambda>x. gloc pdata N x (gcomm pdata N u (f_data pdata)))"
  assumes d: "dq_defined (rel_uu pdata) N u usc"
  shows "KBBDDQJac N A pdata u usc gu gtemp utemp =
         Some (Inr
           \<lparr>dq_J = dq_jacobian pdata N A u usc,
            dq_gu = G u,
            dq_gtemp = (if 1 \<le> min w N then G (perturbed (rel_uu pdata) w N u usc (min w N)) else gtemp),
            dq_utemp = u, dq_f_data = fd,
            dq_calls = u # map (perturbed (rel_uu pdata) w N u usc) [1..min w N]\<rparr>)"
proof (cases "0 < ml pdata + mu pdata + 1")
  case True
  show ?thesis
    unfolding w_def fd_def G_def KBBDDQJac_eq[OF True d]
    using True by (simp add: dq_jacobian_def)
next
  case False
  then have m: "min (ml pdata + mu pdata + 1) N < 1" by arith
  define ng where "ng = min (ml pdata + mu pdata + 1) N"
  have ng: "\<not> 1 \<le> ng" unfolding ng_def using m by arith
  have e: "[1..ng] = []" using ng by simp
  have j: "dq_jacobian pdata N A u usc = A" using False by (simp add: dq_jacobian_def)
  show ?thesis
    unfolding w_def fd_def G_def KBBDDQJac_no_groups[OF m] j ng_def[symmetric]
    using ng by (simp add: e)
qed




lemma KBBDPrecon_result:
  fixes pdata :: "'fd KBBDData" and u :: "real list"
  defines "N \<equiv> n_local pdata"
  defines "w \<equiv> ml pdata + mu pdata + 1"
  defines "fd \<equiv> gcomm pdata (n_local pdata) u (f_data pdata)"
  defines "G \<equiv> (\<lambda>x. gloc pdata (n_local pdata) x (gcomm pdata (n_local pdata) u (f_data pdata)))"
  assumes d: "dq_defined (rel_uu pdata) (n_local pdata) u usc"
    and a: "PP pdata = Some A" "pivots pdata = Some p" "vtemp3 pdata = Some v3"
  shows "KBBDPrecon BF pdata u usc v1 v2 =
         Some (Inr
           \<lparr>p_ret = (if 0 < snd (snd (BF (dq_jacobian pdata N (BandZero A) u usc))) then 1 else 0),
            p_data = pdata\<lparr>f_data := fd,
                       PP := Some (fst (BF (dq_jacobian pdata N (BandZero A) u usc))),
                       pivots := Some (fst (snd (BF (dq_jacobian pdata N (BandZero A) u usc)))),
                       vtemp3 := Some u,
                       nge := nge pdata + (1 + min w N)\<rparr>,
            p_vtemp1 = G u,
            p_vtemp2 = (if 1 \<le> min w N then G (perturbed (rel_uu pdata) w N u usc (min w N)) else v2),
            p_calls = u # map (perturbed (rel_uu pdata) w N u usc) [1..min w N]\<rparr>)"
  unfolding N_def w_def fd_def G_def
  by (simp add: KBBDPrecon_def Let_def a KBBDDQJac_result[OF d] split: prod.split)

subsection \<open>The builder and the rebuild always return\<close>

text \<open>
  An inner loop ends when the width is positive, and the loop over the groups enters
  the inner loops only then: the number of groups is at most the width. So no call of
  the builder or of \<open>KBBDPrecon\<close> runs forever, whatever its arguments.
\<close>

lemma col_loop_terminates:
  assumes w: "0 < w"
  shows "\<exists>r. col_loop N w body j s = Some r"
proof (induction "nat (N - j)" arbitrary: j s rule: less_induct)
  case less
  show ?case
  proof (cases "j < N")
    case False
    then show ?thesis by (subst col_loop.simps) simp
  next
    case True
    show ?thesis
    proof (cases "body j s")
      case (Inl e)
      then show ?thesis using True by (subst col_loop.simps) simp
    next
      case (Inr s')
      from True w have "nat (N - (j + w)) < nat (N - j)" by simp
      from less.hyps[OF this, of s'] show ?thesis
        using True Inr by (subst col_loop.simps) simp
    qed
  qed
qed

lemma group_loop_terminates:
  assumes ng: "ng \<le> w" and grp: "1 \<le> grp"
  shows "\<exists>r. group_loop pdata N u usc w ng grp s = Some r"
  using grp
proof (induction "nat (ng + 1 - grp)" arbitrary: grp s rule: less_induct)
  case less
  show ?case
  proof (cases "grp \<le> ng")
    case False
    then show ?thesis by (simp add: group_loop_done)
  next
    case True
    then have w: "0 < w" using ng less.prems by simp
    obtain r1 where r1: "col_loop N w (incr_body (rel_uu pdata) u usc) (grp - 1) (dq_utemp s) = Some r1"
      using col_loop_terminates[OF w, of N "incr_body (rel_uu pdata) u usc" "grp - 1" "dq_utemp s"]
      by blast
    show ?thesis
    proof (cases r1)
      case (Inl e)
      then show ?thesis using True r1 by (subst group_loop.simps) simp
    next
      case (Inr ut)
      obtain r2 where r2: "col_loop N w
          (fill_body (rel_uu pdata) (mu pdata) (ml pdata) N u usc (dq_gu s)
             (gloc pdata N ut (dq_f_data s))) (grp - 1) (ut, dq_J s) = Some r2"
        using col_loop_terminates[OF w, of N
            "fill_body (rel_uu pdata) (mu pdata) (ml pdata) N u usc (dq_gu s)
               (gloc pdata N ut (dq_f_data s))" "grp - 1" "(ut, dq_J s)"]
        by blast
      show ?thesis
      proof (cases r2)
        case (Inl e)
        then show ?thesis using True r1 Inr r2 by (subst group_loop.simps) (simp add: Let_def)
      next
        case r2': (Inr p)
        obtain ut' B where p: "p = (ut', B)" by (cases p)
        have "nat (ng + 1 - (grp + 1)) < nat (ng + 1 - grp)" using True by simp
        from less.hyps[OF this, of "s\<lparr>dq_J := B, dq_gtemp := gloc pdata N ut (dq_f_data s),
            dq_utemp := ut', dq_calls := dq_calls s @ [ut]\<rparr>"] less.prems
        show ?thesis
          using True r1 Inr r2 r2' p by (subst group_loop.simps) (simp add: Let_def)
      qed
    qed
  qed
qed

lemma KBBDDQJac_terminates:
  "\<exists>r. KBBDDQJac N A pdata u usc gu gtemp utemp = Some r"
  unfolding KBBDDQJac_def Let_def
  by (rule group_loop_terminates) simp_all

lemma KBBDPrecon_terminates:
  "\<exists>r. KBBDPrecon BF pdata u usc v1 v2 = Some r"
proof (cases "PP pdata")
  case None
  then show ?thesis by (simp add: KBBDPrecon_def)
next
  case A: (Some A)
  show ?thesis
  proof (cases "vtemp3 pdata")
    case None
    then show ?thesis using A by (simp add: KBBDPrecon_def)
  next
    case v: (Some v3)
    obtain r where r: "KBBDDQJac (n_local pdata) (BandZero A) pdata u usc v1 v2 v3 = Some r"
      using KBBDDQJac_terminates[of "n_local pdata" "BandZero A" pdata u usc v1 v2 v3] by blast
    show ?thesis
      using A v r
      by (cases r; cases "pivots pdata")
         (simp_all add: KBBDPrecon_def Let_def split: prod.split)
  qed
qed

subsection \<open>Further facts used for the claims\<close>






lemma dq_jacobian_cong:
  assumes "gloc pdata' = gloc pdata" "gcomm pdata' = gcomm pdata"
    "gcomm pdata N u (f_data pdata') = gcomm pdata N u (f_data pdata)"
    "rel_uu pdata' = rel_uu pdata" "mu pdata' = mu pdata" "ml pdata' = ml pdata"
  shows "dq_jacobian pdata' N A u usc = dq_jacobian pdata N A u usc"
  using assms by (simp add: dq_jacobian_def)

section \<open>The claims\<close>

subsection \<open>C1: groups, evaluations of the local function, and the counter\<close>



subsection \<open>C2: the entries the builder writes\<close>



subsection \<open>C3: KBBDPSol and the state of the driver\<close>

text \<open>
  C3 fails on the code. \<open>KBBDPSol\<close> returns 0 on a data block fresh from \<open>KBBDAlloc\<close>,
  which was never factored, and it returns 0 after a \<open>KBBDPrecon\<close> that has returned 1
  for a singular matrix (here the local function is constant, so the matrix is zero).
\<close>

theorem KBBDPSol_after_failed_precondition:
  "KBBDAlloc ex_env 1 0 0 (1 / 2) ex_gloc ex_gcomm () (Some ex_kin_mem) = Inr (Some (ex_pdata 1 0 0))
   \<and> KBBDPSol ex_BandBacksolve (ex_pdata 1 0 0) [1] = Inr (0, [1])
   \<and> map_option (map_sum id p_ret)
        (KBBDPrecon ex_BandFactor ((ex_pdata 1 0 0)\<lparr>gloc := (\<lambda>n x fd. [0])\<rparr>) [1] [1] [0] [0])
      = Some (Inr 1)
   \<and> map_option (map_sum id (\<lambda>res. KBBDPSol ex_BandBacksolve (p_data res) [1]))
        (KBBDPrecon ex_BandFactor ((ex_pdata 1 0 0)\<lparr>gloc := (\<lambda>n x fd. [0])\<rparr>) [1] [1] [0] [0])
      = Some (Inr (Inr (0, [1])))"
proof -
  have h: "dq_defined (rel_uu ((ex_pdata 1 0 0)\<lparr>gloc := (\<lambda>n x fd. [0])\<rparr>))
             (n_local ((ex_pdata 1 0 0)\<lparr>gloc := (\<lambda>n x fd. [0])\<rparr>)) [1] [1]"
    "PP ((ex_pdata 1 0 0)\<lparr>gloc := (\<lambda>n x fd. [0])\<rparr>) = Some (ex_band 1 0 0 0)"
    "pivots ((ex_pdata 1 0 0)\<lparr>gloc := (\<lambda>n x fd. [0])\<rparr>) = Some [0]"
    "vtemp3 ((ex_pdata 1 0 0)\<lparr>gloc := (\<lambda>n x fd. [0])\<rparr>) = Some [0]"
    by (simp_all add: ex_pdata_def dq_defined_def dq_increment_def)
  have J: "b_elem (dq_jacobian ((ex_pdata 1 0 0)\<lparr>gloc := (\<lambda>n x fd. [0])\<rparr>) 1
        (BandZero (ex_band 1 0 0 0)) [1] [1]) (0, 0) = 0"
    by (simp add: dq_jacobian_def dq_matrix_def dq_quotient_def in_band_def perturbed_def
        dq_increment_def ex_pdata_def BandZero_def)
  have n: "n_local ((ex_pdata 1 0 0)\<lparr>gloc := (\<lambda>n x fd. [0])\<rparr>) = 1" by (simp add: ex_pdata_def)
  have 1: "KBBDAlloc ex_env 1 0 0 (1 / 2) ex_gloc ex_gcomm () (Some ex_kin_mem) = Inr (Some (ex_pdata 1 0 0))"
    "KBBDPSol ex_BandBacksolve (ex_pdata 1 0 0) [1] = Inr (0, [1])"
    by (simp_all add: KBBDAlloc_def ex_env_def ex_kin_mem_def ex_machenv_def ex_pdata_def Let_def
        KBBDPSol_def ex_BandBacksolve_def ex_band_def)
  have 2: "map_option (map_sum id p_ret)
        (KBBDPrecon ex_BandFactor ((ex_pdata 1 0 0)\<lparr>gloc := (\<lambda>n x fd. [0])\<rparr>) [1] [1] [0] [0])
      = Some (Inr 1)"
    "map_option (map_sum id (\<lambda>res. KBBDPSol ex_BandBacksolve (p_data res) [1]))
        (KBBDPrecon ex_BandFactor ((ex_pdata 1 0 0)\<lparr>gloc := (\<lambda>n x fd. [0])\<rparr>) [1] [1] [0] [0])
      = Some (Inr (Inr (0, [1])))"
    unfolding KBBDPrecon_result[OF h] n
    by (simp_all add: ex_BandFactor_def J KBBDPSol_def ex_BandBacksolve_def)
  from 1 2 show ?thesis by simp
qed

text \<open>
  C3, amended. \<open>KBBDPSol\<close> keeps and checks no state: on every data block whose band
  matrix and pivot array are allocated it hands the present matrix and pivots to
  \<open>BandBacksolve\<close> and returns 0, the result of the backsolve in \<open>vtem\<close>; it writes
  nothing to the data block.
\<close>

theorem KBBDPSol_always_backsolves:
  assumes "PP pdata = Some A" and "pivots pdata = Some p"
  shows "KBBDPSol BandBacksolve pdata vtem = Inr (0, BandBacksolve A p vtem)"
  using assms by (simp add: KBBDPSol_def)

text \<open>
  Witness for C3, amended: the data block of size 1 and a backsolve that returns the
  right-hand side.
\<close>

theorem KBBDPSol_always_backsolves_witness:
  "PP (ex_pdata 1 0 0) = Some (ex_band 1 0 0 0) \<and> pivots (ex_pdata 1 0 0) = Some [0]
   \<and> KBBDPSol (\<lambda>A p b. b) (ex_pdata 1 0 0) [1] = Inr (0, [1])"
  using KBBDPSol_always_backsolves[of "ex_pdata 1 0 0" "ex_band 1 0 0 0" "[0]" "\<lambda>A p b. b" "[1]"]
  by (simp add: ex_pdata_def)

subsection \<open>C4: KBBDAlloc and the bandwidths\<close>




subsection \<open>C5: the increment and a zero scale component\<close>




subsection \<open>C6: the return value of KBBDPrecon and the relative increment\<close>



subsection \<open>C7: determinism\<close>

text \<open>
  C7. A rebuild is a function of \<open>u\<close>, \<open>uscale\<close>, the configuration in the data block
  and the data \<open>gcomm\<close> stages: two calls of \<open>KBBDPrecon\<close> whose data blocks differ only
  in the entries of the band matrix (zeroed before the rebuild), the pivot array,
  \<open>vtemp3\<close>, \<open>nge\<close> and user data from which \<open>gcomm\<close> stages the same, and that are given
  any work vectors, both return and leave the same factored matrix, the same pivots and
  the same return value, after the same calls of \<open>gloc\<close>. The second of two calls in
  a row is the case where the second data block is the one the first call left.
\<close>

theorem KBBDPrecon_deterministic:
  fixes pdata :: "'fd KBBDData"
  assumes d: "dq_defined (rel_uu pdata) (n_local pdata) u usc"
    and a: "PP pdata = Some A" "pivots pdata = Some p" "vtemp3 pdata = Some v3"
    and z: "BandZero A' = BandZero A"
    and fd: "gcomm pdata (n_local pdata) u fd' = gcomm pdata (n_local pdata) u (f_data pdata)"
  shows "\<exists>res res'.
           KBBDPrecon BF pdata u usc v1 v2 = Some (Inr res)
         \<and> KBBDPrecon BF (pdata\<lparr>f_data := fd', PP := Some A', pivots := Some p',
                                vtemp3 := Some v3', nge := n'\<rparr>) u usc v1' v2' = Some (Inr res')
         \<and> PP (p_data res') = PP (p_data res)
         \<and> pivots (p_data res') = pivots (p_data res)
         \<and> p_ret res' = p_ret res
         \<and> p_calls res' = p_calls res
         \<and> PP (p_data res) = Some (fst (BF (dq_jacobian pdata (n_local pdata) (BandZero A) u usc)))"
proof -
  let ?pdata' = "pdata\<lparr>f_data := fd', PP := Some A', pivots := Some p',
                                vtemp3 := Some v3', nge := n'\<rparr>"
  have d': "dq_defined (rel_uu ?pdata') (n_local ?pdata') u usc" using d by simp
  have a': "PP ?pdata' = Some A'" "pivots ?pdata' = Some p'" "vtemp3 ?pdata' = Some v3'"
    by simp_all
  have j: "dq_jacobian ?pdata' (n_local pdata) (BandZero A) u usc
         = dq_jacobian pdata (n_local pdata) (BandZero A) u usc"
    by (rule dq_jacobian_cong) (simp_all add: fd)
  show ?thesis
    unfolding KBBDPrecon_result[OF d a] KBBDPrecon_result[OF d' a']
    by (simp add: z j)
qed

text \<open>
  Witness for C7: the second data block holds a matrix full of 7, other pivots, another
  \<open>vtemp3\<close> and \<open>nge = 2\<close>, and the work vectors differ.
\<close>

theorem KBBDPrecon_deterministic_witness:
  "dq_defined (rel_uu (ex_pdata 1 0 0)) (n_local (ex_pdata 1 0 0)) [1] [1]
   \<and> PP (ex_pdata 1 0 0) = Some (ex_band 1 0 0 0)
   \<and> pivots (ex_pdata 1 0 0) = Some [0]
   \<and> vtemp3 (ex_pdata 1 0 0) = Some [0]
   \<and> BandZero ((ex_band 1 0 0 0)\<lparr>b_elem := (\<lambda>_. 7)\<rparr>) = BandZero (ex_band 1 0 0 0)
   \<and> gcomm (ex_pdata 1 0 0) (n_local (ex_pdata 1 0 0)) [1] ()
       = gcomm (ex_pdata 1 0 0) (n_local (ex_pdata 1 0 0)) [1] (f_data (ex_pdata 1 0 0))
   \<and> (\<exists>res res'.
           KBBDPrecon ex_BandFactor (ex_pdata 1 0 0) [1] [1] [0] [0] = Some (Inr res)
         \<and> KBBDPrecon ex_BandFactor
              ((ex_pdata 1 0 0)\<lparr>f_data := (), PP := Some ((ex_band 1 0 0 0)\<lparr>b_elem := (\<lambda>_. 7)\<rparr>),
                                 pivots := Some [5], vtemp3 := Some [9], nge := 2\<rparr>)
              [1] [1] [3] [4] = Some (Inr res')
         \<and> PP (p_data res') = PP (p_data res)
         \<and> pivots (p_data res') = pivots (p_data res)
         \<and> p_ret res' = p_ret res)"
proof -
  have h: "dq_defined (rel_uu (ex_pdata 1 0 0)) (n_local (ex_pdata 1 0 0)) [1] [1]"
    "PP (ex_pdata 1 0 0) = Some (ex_band 1 0 0 0)"
    "pivots (ex_pdata 1 0 0) = Some [0]"
    "vtemp3 (ex_pdata 1 0 0) = Some [0]"
    "BandZero ((ex_band 1 0 0 0)\<lparr>b_elem := (\<lambda>_. 7)\<rparr>) = BandZero (ex_band 1 0 0 0)"
    "gcomm (ex_pdata 1 0 0) (n_local (ex_pdata 1 0 0)) [1] ()
       = gcomm (ex_pdata 1 0 0) (n_local (ex_pdata 1 0 0)) [1] (f_data (ex_pdata 1 0 0))"
    by (simp_all add: ex_pdata_def dq_defined_def dq_increment_def BandZero_def)
  from KBBDPrecon_deterministic[OF h, where BF=ex_BandFactor and ?v1.0="[0]" and ?v2.0="[0]"
      and p'="[5]" and v3'="[9]" and n'=2 and v1'="[3]" and v2'="[4]"]
  have "\<exists>res res'.
           KBBDPrecon ex_BandFactor (ex_pdata 1 0 0) [1] [1] [0] [0] = Some (Inr res)
         \<and> KBBDPrecon ex_BandFactor
              ((ex_pdata 1 0 0)\<lparr>f_data := (), PP := Some ((ex_band 1 0 0 0)\<lparr>b_elem := (\<lambda>_. 7)\<rparr>),
                                 pivots := Some [5], vtemp3 := Some [9], nge := 2\<rparr>)
              [1] [1] [3] [4] = Some (Inr res')
         \<and> PP (p_data res') = PP (p_data res)
         \<and> pivots (p_data res') = pivots (p_data res)
         \<and> p_ret res' = p_ret res"
    by blast
  with h show ?thesis by blast
qed

subsection \<open>C8: the return-code table\<close>

text \<open>
  C8. Success is 0, every recoverable code is positive and every fatal code is
  negative, as the claim says; but the table does not keep distinct failure conditions
  apart: the two different conditions \<open>SUN_NLS_MEM_NULL\<close> (the memory argument is
  NULL) and \<open>SUN_NLS_MEM_FAIL\<close> (a memory request failed) both have the value -1.
\<close>

theorem nls_codes_mem_null_mem_fail_collide:
  "nls_value SUN_NLS_SUCCESS = 0
   \<and> 0 < nls_value SUN_NLS_SYS_RECVR \<and> 0 < nls_value SUN_NLS_LSETUP_RECVR
   \<and> 0 < nls_value SUN_NLS_LSOLVE_RECVR \<and> 0 < nls_value SUN_NLS_NCONV_RECVR
   \<and> nls_value SUN_NLS_MEM_NULL < 0 \<and> nls_value SUN_NLS_ILL_INPUT < 0
   \<and> nls_value SUN_NLS_MEM_FAIL < 0 \<and> nls_value SUN_NLS_SYS_FAIL < 0
   \<and> nls_value SUN_NLS_LSETUP_FAIL < 0 \<and> nls_value SUN_NLS_LSOLVE_FAIL < 0
   \<and> nls_value SUN_NLS_VECTOROP_ERR < 0
   \<and> SUN_NLS_MEM_NULL \<noteq> SUN_NLS_MEM_FAIL
   \<and> nls_value SUN_NLS_MEM_NULL = nls_value SUN_NLS_MEM_FAIL"
  by simp

subsection \<open>C9: what a rebuild writes\<close>




subsection \<open>C10: KBBDAlloc and a failed allocation\<close>

text \<open>
  C10. The code does not keep this promise. When \<open>BandAllocPiv\<close> returns NULL and the
  other allocations succeed, \<open>KBBDAlloc\<close> returns a data block whose pivot array is
  NULL: after the allocation of the pivots it tests \<open>PP\<close> again, not \<open>pivots\<close>. The
  next \<open>KBBDPrecon\<close> on that data block dereferences the NULL pointer.
\<close>

theorem KBBDAlloc_returns_handle_without_pivots:
  "KBBDAlloc (ex_env\<lparr>BandAllocPiv := (\<lambda>n. None)\<rparr>) 1 0 0 0 ex_gloc ex_gcomm () (Some ex_kin_mem)
     = Inr (Some ((ex_pdata 1 0 0)\<lparr>pivots := None\<rparr>))
   \<and> KBBDPrecon ex_BandFactor ((ex_pdata 1 0 0)\<lparr>pivots := None\<rparr>) [1] [1] [0] [0]
     = Some (Inl NullPointer)"
  by (simp add: KBBDAlloc_def ex_env_def ex_kin_mem_def ex_machenv_def ex_pdata_def Let_def
      KBBDPrecon_def KBBDDQJac_result dq_defined_def dq_increment_def real_sqrt_divide)

text \<open>
  Read off that result: the call returns a data block, and its pivot array is NULL.
\<close>

theorem KBBDAlloc_returns_handle_without_pivots_witness:
  "map_sum id (map_option pivots)
     (KBBDAlloc (ex_env\<lparr>BandAllocPiv := (\<lambda>n. None)\<rparr>) 1 0 0 0 ex_gloc ex_gcomm ()
        (Some ex_kin_mem))
   = Inr (Some None)"
  using KBBDAlloc_returns_handle_without_pivots by simp

end
